theory Spec2Isabelle
  imports Main "HOL-Library.Word"
begin

section \<open>The integer object as the notebook reads it\<close>

text \<open>
  The notebook's routine \<^verbatim>\<open>retrieve_full_int_value_from_address\<close> overlays a
  \<^verbatim>\<open>ctypes.Structure\<close> on the memory at an address and reads its fields:
  \<^verbatim>\<open>
    class PyLongObjectWithDigits(ctypes.Structure):
        _fields_ = [
            ("ob_refcnt", ctypes.c_long),
            ("ob_type", ctypes.c_void_p),
            ("ob_size", ctypes.c_ssize_t),
            ("ob_digit", ctypes.c_uint32 * num_digits),
        ]
  \<close>
  On the 64-bit platform the notebook assumes, \<^verbatim>\<open>c_long\<close>, \<^verbatim>\<open>c_void_p\<close> and
  \<^verbatim>\<open>c_ssize_t\<close> are 64 bits wide; \<^verbatim>\<open>ob_size\<close> is read as a signed value.
  The digit cells are unsigned 32-bit words. The routine first overlays the structure with
  one digit cell, then again with \<open>num_digits\<close> cells, so the record keeps the cells that
  follow the header as a function of the index and the routine decides how many it reads.
\<close>

record PyLongObject =
  ob_refcnt :: "64 word"
  ob_type :: "64 word"
  ob_size :: "64 word"
  ob_digit :: "nat \<Rightarrow> 32 word"

text \<open>
  Memory is what the structure overlay shows at each pointer value. Reading never changes
  it, and the model takes every pointer as readable: the crash of the process on cells
  that are not mapped is outside it.
\<close>

type_synonym memory = "int \<Rightarrow> PyLongObject"

text \<open>
  The outcomes of the routine other than an integer. The notebook raises nothing itself;
  what can stop it comes from the two \<^verbatim>\<open>ctypes\<close> operations it calls:
  \<^item> \<^verbatim>\<open>from_address(address)\<close> converts the Python integer to a pointer and raises
    \<^verbatim>\<open>OverflowError\<close> outside \<open>[-2^63, 2^64)\<close>; a negative integer down to \<open>-2^63\<close>
    is taken as the pointer \<open>2^64\<close> more;
  \<^item> \<^verbatim>\<open>ctypes.c_uint32 * num_digits\<close> raises \<^verbatim>\<open>OverflowError\<close> from \<open>2^61\<close>
    cells on (the array's size in bytes no longer fits a signed 64-bit size);
  \<^item> the class statement that follows kills the interpreter (a segmentation fault, not an
    exception) from \<open>2^61 - 7\<close> cells on: the size of the structure, 24 bytes of header
    and 4 per cell rounded up to a multiple of 8, no longer fits. With \<open>2^61 - 8\<close> cells the
    structure is accepted.
  \<open>InvalidDigit\<close> and \<open>InvalidBase\<close> are the error kinds of the specification; the
  notebook has no statement that raises either.
\<close>

datatype error = OverflowError | SegmentationFault | InvalidDigit | InvalidBase

definition pointer :: "int \<Rightarrow> int" where
  "pointer address = address mod 2 ^ 64"

definition from_address :: "memory \<Rightarrow> int \<Rightarrow> error + PyLongObject" where
  "from_address mem address =
     (if address < - (2 ^ 63) \<or> 2 ^ 64 \<le> address then Inl OverflowError
      else Inr (mem (pointer address)))"

section \<open>Reconstruction of the value\<close>

text \<open>
  The loop of the routine,
  \<^verbatim>\<open>
    value = 0
    base = 2**30
    for i in range(num_digits):
        value += py_long_full.ob_digit[i] * (base ** i)
  \<close>
  with the digits (already Python integers, hence \<open>int\<close>) and the local \<open>base\<close> as
  arguments. The accumulator is an unbounded integer, as Python's is.
\<close>

definition reconstruct :: "int list \<Rightarrow> int \<Rightarrow> int" where
  "reconstruct digits base =
     fold (\<lambda>i value. value + digits ! i * base ^ i) [0..<length digits] 0"

text \<open>
  The loop followed by the sign adjustment,
  \<^verbatim>\<open>
    if py_long_full.ob_size < 0:
        value = -value
    return value
  \<close>
  where \<open>negative\<close> is the outcome of the test \<^verbatim>\<open>ob_size < 0\<close>. This is the
  operation the specification calls decode: digits, sign and base in, integer out.
\<close>

definition decode :: "int list \<Rightarrow> bool \<Rightarrow> int \<Rightarrow> int" where
  "decode digits negative base =
     (let value = reconstruct digits base
      in if negative then - value else value)"

text \<open>
  The whole routine. \<^verbatim>\<open>num_digits = abs(py_long.ob_size)\<close> is computed on Python
  integers, so the absolute value of the smallest 64-bit value does not wrap.
\<close>

definition num_digits :: "PyLongObject \<Rightarrow> nat" where
  "num_digits py_long = nat \<bar>sint (ob_size py_long)\<bar>"

definition read_digits :: "PyLongObject \<Rightarrow> nat \<Rightarrow> int list" where
  "read_digits py_long_full n = map (\<lambda>i. uint (ob_digit py_long_full i)) [0..<n]"

definition retrieve_full_int_value_from_address :: "memory \<Rightarrow> int \<Rightarrow> error + int" where
  "retrieve_full_int_value_from_address mem address =
     (case from_address mem address of
        Inl e \<Rightarrow> Inl e
      | Inr py_long \<Rightarrow>
          let n = num_digits py_long
          in if 2 ^ 61 \<le> n then Inl OverflowError
             else if 2 ^ 61 \<le> n + 7 then Inl SegmentationFault
             else
               (case from_address mem address of
                  Inl e \<Rightarrow> Inl e
                | Inr py_long_full \<Rightarrow>
                    Inr (decode (read_digits py_long_full n)
                           (sint (ob_size py_long_full) < 0) (2 ^ 30))))"

section \<open>The routine as a run\<close>



text \<open>
  A memory holds a digit sequence and a sign at an address when the object there has the
  digit count as \<^verbatim>\<open>ob_size\<close>, negated for a negative sign, and the digits in its first
  cells. Nothing is said of the reference count, the type pointer, the cells beyond the
  digits or the rest of memory.
\<close>

definition holds_digits :: "memory \<Rightarrow> int \<Rightarrow> int list \<Rightarrow> bool \<Rightarrow> bool" where
  "holds_digits mem address digits negative \<longleftrightarrow>
     sint (ob_size (mem (pointer address)))
       = (if negative then - int (length digits) else int (length digits))
     \<and> read_digits (mem (pointer address)) (length digits) = digits"

section \<open>The encoder of the specification\<close>

text \<open>
  Modelled from the spec: the repository has no encoder (in the notebook the digit cells are
  written by the language runtime when the integer is created). The specification describes
  \<open>encode(value, base)\<close> as: fail with \<open>InvalidBase\<close> when \<open>base < 2\<close>; otherwise
  repeatedly divide the absolute value by \<open>base\<close>, collecting the remainders as digits from
  least- to most-significant, until the quotient is zero; the sign is negative when the value
  is strictly negative. Of the two conventions the specification allows for zero, the empty
  digit sequence is taken (its data model: a sequence with zero digits represents 0). The
  test on the base in \<open>encode_digits\<close> only makes the recursion terminate: \<open>encode\<close>
  rejects such a base before it divides.
\<close>

function encode_digits :: "int \<Rightarrow> int \<Rightarrow> int list" where
  "encode_digits base n =
     (if base < 2 \<or> n \<le> 0 then [] else n mod base # encode_digits base (n div base))"
  by pat_completeness auto
termination
proof (relation "measure (\<lambda>(base, n). nat n)")
  show "wf (measure (\<lambda>(base, n). nat n))" by simp
next
  fix base n :: int
  assume a: "\<not> (base < 2 \<or> n \<le> 0)"
  have "n div base < n"
    using a by (intro int_div_less_self) auto
  moreover have "0 \<le> n div base"
    using a by (simp add: pos_imp_zdiv_nonneg_iff)
  ultimately show "((base, n div base), (base, n)) \<in> measure (\<lambda>(base, n). nat n)"
    using a by simp
qed

declare encode_digits.simps [simp del]

text \<open>
  Modelled from the spec: \<open>encode\<close> itself, absent from the repository like its digit
  loop above: the \<open>InvalidBase\<close> failure, the digits of the absolute value and the sign.
\<close>

definition encode :: "int \<Rightarrow> int \<Rightarrow> error + (int list \<times> bool)" where
  "encode v base =
     (if base < 2 then Inl InvalidBase
      else Inr (encode_digits base \<bar>v\<bar>, v < 0))"

section \<open>The specification's wording of the sign rule\<close>

text \<open>
  The specification words decode as: accumulate \<open>value = \<Sum> digits[i] * base^i\<close> for
  \<open>i = 0..len(digits)-1\<close>; if the sign is negative and the accumulated magnitude is
  non-zero, negate the result. This second definition follows those words, to be compared
  with \<open>decode\<close>, which follows the code.
\<close>

definition decode_guarded :: "int list \<Rightarrow> bool \<Rightarrow> int \<Rightarrow> int" where
  "decode_guarded digits negative base =
     (let magnitude = (\<Sum>i\<leftarrow>[0..<length digits]. digits ! i * base ^ i)
      in if negative \<and> magnitude \<noteq> 0 then - magnitude else magnitude)"

section \<open>Objects for the routine to read\<close>

text \<open>
  An object that holds a given digit sequence and sign the way the notebook's structure
  documents it: \<^verbatim>\<open>ob_size\<close> is the number of digits, negative for a negative number,
  and the digits sit in consecutive unsigned 32-bit cells (a value is reduced modulo
  \<open>2^32\<close> when stored in a cell). The cells after the last digit hold zeros here; the
  routine does not read them.
\<close>

definition stored_int :: "int list \<Rightarrow> bool \<Rightarrow> PyLongObject" where
  "stored_int digits negative =
     \<lparr>ob_refcnt = 1, ob_type = 0,
      ob_size = (if negative then - word_of_nat (length digits) else word_of_nat (length digits)),
      ob_digit = (\<lambda>i. if i < length digits then word_of_int (digits ! i) else 0)\<rparr>"

definition memory_at :: "int \<Rightarrow> PyLongObject \<Rightarrow> memory" where
  "memory_at address obj =
     (\<lambda>a. if a = address then obj
          else \<lparr>ob_refcnt = 0, ob_type = 0, ob_size = 0, ob_digit = (\<lambda>i. 0)\<rparr>)"

text \<open>The integer of the notebook's last cell (308 decimal digits).\<close>

definition notebook_value :: int where
  "notebook_value = 54789549307749363717967245642654820654127167450746741273478270594796070634706458364583706806438045365380416845306453083476597689754398754937934754389543754383549754398343767263692853638647846584239476595470464783065807645160457365410601546530135648376584073635870564380316583645306584045836453816584334063458"

text \<open>Its digits at base \<open>2^30\<close>, least-significant first.\<close>

definition notebook_digits :: "int list" where
  "notebook_digits = [186234722, 1032009584, 789489999, 816583194, 354858117, 145862518,
     555389420, 373184479, 980145373, 224369330, 104077, 287598367, 500131941, 667853909,
     1056426028, 216936246, 874927828, 304519384, 974730911, 89117775, 292633143, 338039771,
     662611008, 536874710, 702647921, 646194491, 249166833, 402382267, 1043634092, 98970513,
     644183743, 268125137, 659852904, 941061431, 4]"

section \<open>Facts about the loop\<close>

lemma fold_accumulate:
  "fold (\<lambda>i value. value + f i) [0..<n] (acc::int) = acc + (\<Sum>i<n. f i)"
  by (induction n) simp_all

lemma reconstruct_sum:
  "reconstruct digits base = (\<Sum>i<length digits. digits ! i * base ^ i)"
  unfolding reconstruct_def by (simp add: fold_accumulate)

lemma reconstruct_Nil: "reconstruct [] base = 0"
  by (simp add: reconstruct_sum)

lemma reconstruct_Cons:
  "reconstruct (d # ds) base = d + base * reconstruct ds base"
  by (simp add: reconstruct_sum sum.lessThan_Suc_shift sum_distrib_left mult_ac
      del: sum.lessThan_Suc)

lemma reconstruct_append:
  "reconstruct (xs @ ys) base = reconstruct xs base + base ^ length xs * reconstruct ys base"
  by (induction xs) (simp_all add: reconstruct_Nil reconstruct_Cons algebra_simps)

section \<open>Facts about the routine and stored objects\<close>

lemma sint_word_of_int_64:
  "- (2 ^ 63) \<le> k \<Longrightarrow> k < 2 ^ 63 \<Longrightarrow> sint (word_of_int k :: 64 word) = k"
  by (simp add: sint_sbintrunc' signed_take_bit_int_eq_self)

lemma sint_size_nonneg: "n < 2 ^ 63 \<Longrightarrow> sint (word_of_nat n :: 64 word) = int n"
proof -
  assume a: "n < 2 ^ 63"
  have "(word_of_nat n :: 64 word) = word_of_int (int n)" by simp
  moreover have "int n < 2 ^ 63" using a by (simp flip: of_nat_less_iff)
  ultimately show ?thesis by (simp only: sint_word_of_int_64)
qed

lemma sint_size_neg: "n < 2 ^ 63 \<Longrightarrow> sint (- word_of_nat n :: 64 word) = - int n"
proof -
  assume a: "n < 2 ^ 63"
  have "(- word_of_nat n :: 64 word) = word_of_int (- int n)" by simp
  moreover have "int n < 2 ^ 63" using a by (simp flip: of_nat_less_iff)
  ultimately show ?thesis by (simp only: sint_word_of_int_64)
qed

lemma uint_cell: "0 \<le> d \<Longrightarrow> d < 2 ^ 32 \<Longrightarrow> uint (word_of_int d :: 32 word) = d"
  by (simp add: uint_word_of_int)

lemma stored_num_digits:
  "length digits < 2 ^ 63 \<Longrightarrow> num_digits (stored_int digits negative) = length digits"
  by (simp add: num_digits_def stored_int_def sint_size_nonneg sint_size_neg)

lemma stored_sign:
  "length digits < 2 ^ 63 \<Longrightarrow>
     sint (ob_size (stored_int digits negative)) < 0 \<longleftrightarrow> negative \<and> digits \<noteq> []"
  by (simp add: stored_int_def sint_size_nonneg sint_size_neg)

lemma stored_read_digits:
  "\<forall>d \<in> set digits. 0 \<le> d \<and> d < 2 ^ 32 \<Longrightarrow>
     read_digits (stored_int digits negative) (length digits) = digits"
proof (rule nth_equalityI)
  show "length (read_digits (stored_int digits negative) (length digits)) = length digits"
    by (simp add: read_digits_def)
next
  fix i
  assume "i < length (read_digits (stored_int digits negative) (length digits))"
  then have i: "i < length digits"
    by (simp add: read_digits_def)
  assume cells: "\<forall>d \<in> set digits. 0 \<le> d \<and> d < 2 ^ 32"
  from i have "digits ! i \<in> set digits"
    by simp
  with cells have "0 \<le> digits ! i" and "digits ! i < 2 ^ 32"
    by blast+
  then have "uint (word_of_int (digits ! i) :: 32 word) = digits ! i"
    by (rule uint_cell)
  with i show "read_digits (stored_int digits negative) (length digits) ! i = digits ! i"
    by (simp add: read_digits_def stored_int_def)
qed

lemma decode_Nil: "decode [] negative base = 0"
  by (simp add: decode_def reconstruct_Nil)

lemma from_address_valid:
  "- (2 ^ 63) \<le> address \<Longrightarrow> address < 2 ^ 64 \<Longrightarrow>
     from_address mem address = Inr (mem (pointer address))"
  by (simp add: from_address_def)

lemma retrieve_sum:
  assumes "- (2 ^ 63) \<le> address" and "address < 2 ^ 64"
    and "num_digits (mem (pointer address)) + 7 < 2 ^ 61"
  shows "retrieve_full_int_value_from_address mem address =
     Inr ((if sint (ob_size (mem (pointer address))) < 0 then - 1 else 1) *
          (\<Sum>i<num_digits (mem (pointer address)).
              uint (ob_digit (mem (pointer address)) i) * (2 ^ 30) ^ i))"
  using assms
  by (simp add: retrieve_full_int_value_from_address_def from_address_valid Let_def decode_def
      reconstruct_sum read_digits_def)

lemma retrieve_no_validation_error:
  "retrieve_full_int_value_from_address mem address \<noteq> Inl InvalidDigit
   \<and> retrieve_full_int_value_from_address mem address \<noteq> Inl InvalidBase"
  by (simp add: retrieve_full_int_value_from_address_def from_address_def Let_def)

lemma holds_num_digits:
  "holds_digits mem address digits negative \<Longrightarrow>
     num_digits (mem (pointer address)) = length digits"
  by (simp add: holds_digits_def num_digits_def split: if_splits)

lemma holds_sign:
  "holds_digits mem address digits negative \<Longrightarrow>
     sint (ob_size (mem (pointer address))) < 0 \<longleftrightarrow> negative \<and> digits \<noteq> []"
  by (simp add: holds_digits_def split: if_splits)

lemma decode_sign_Nil:
  "decode digits (negative \<and> digits \<noteq> []) base = decode digits negative base"
  by (cases digits) (simp_all add: decode_Nil)

lemma retrieve_holds:
  assumes "- (2 ^ 63) \<le> address" and "address < 2 ^ 64"
    and "length digits + 7 < 2 ^ 61"
    and h: "holds_digits mem address digits negative"
  shows "retrieve_full_int_value_from_address mem address = Inr (decode digits negative (2 ^ 30))"
proof -
  have r: "read_digits (mem (pointer address)) (length digits) = digits"
    using h by (simp add: holds_digits_def)
  show ?thesis
    using assms(1-3)
    by (simp add: retrieve_full_int_value_from_address_def from_address_valid Let_def
        holds_num_digits [OF h] holds_sign [OF h] r decode_sign_Nil)
qed

lemma memory_at_same: "memory_at address obj address = obj"
  by (simp add: memory_at_def)

lemma stored_holds:
  assumes a: "0 \<le> address" "address < 2 ^ 64"
    and len: "length digits < 2 ^ 63"
    and cells: "\<forall>d \<in> set digits. 0 \<le> d \<and> d < 2 ^ 32"
  shows "holds_digits (memory_at address (stored_int digits negative)) address digits negative"
proof -
  have p: "pointer address = address"
    using a by (simp add: pointer_def)
  have "sint (ob_size (stored_int digits negative))
      = (if negative then - int (length digits) else int (length digits))"
    using len by (simp add: stored_int_def sint_size_nonneg sint_size_neg)
  then show ?thesis
    unfolding holds_digits_def p memory_at_same
    using stored_read_digits [OF cells] by simp
qed

lemma retrieve_stored:
  assumes a: "0 \<le> address" "address < 2 ^ 64"
    and len: "length digits + 7 < 2 ^ 61"
    and cells: "\<forall>d \<in> set digits. 0 \<le> d \<and> d < 2 ^ 32"
  shows "retrieve_full_int_value_from_address (memory_at address (stored_int digits negative))
           address = Inr (decode digits negative (2 ^ 30))"
proof -
  have len63: "length digits < 2 ^ 63"
    using len by simp
  have lo: "- (2 ^ 63) \<le> address"
    using a by simp
  show ?thesis
    using lo a(2) len stored_holds [OF a len63 cells] by (rule retrieve_holds)
qed




section \<open>Facts about the encoder\<close>

lemma encode_digits_zero: "encode_digits base 0 = []"
  by (simp add: encode_digits.simps)

lemma encode_digits_step:
  "2 \<le> base \<Longrightarrow> 0 < n \<Longrightarrow>
     encode_digits base n = n mod base # encode_digits base (n div base)"
  by (subst encode_digits.simps) simp

lemma encode_digits_Nil_iff:
  "2 \<le> base \<Longrightarrow> 0 \<le> n \<Longrightarrow> encode_digits base n = [] \<longleftrightarrow> n = 0"
  by (subst encode_digits.simps) auto

lemma reconstruct_encode_digits:
  "2 \<le> base \<Longrightarrow> 0 \<le> n \<Longrightarrow> reconstruct (encode_digits base n) base = n"
proof (induction base n rule: encode_digits.induct)
  case (1 base n)
  show ?case
  proof (cases "n = 0")
    case True
    then show ?thesis by (simp add: encode_digits_zero reconstruct_Nil)
  next
    case False
    with "1.prems" have pos: "0 < n" by simp
    have q: "0 \<le> n div base"
      using "1.prems" by (simp add: pos_imp_zdiv_nonneg_iff)
    have "reconstruct (encode_digits base (n div base)) base = n div base"
      using "1.IH" "1.prems" pos q by simp
    then show ?thesis
      using "1.prems" pos by (simp add: encode_digits_step reconstruct_Cons)
  qed
qed

lemma encode_digits_range:
  "2 \<le> base \<Longrightarrow> d \<in> set (encode_digits base n) \<Longrightarrow> 0 \<le> d \<and> d < base"
proof (induction base n rule: encode_digits.induct)
  case (1 base n)
  show ?case
  proof (cases "n \<le> 0")
    case True
    with "1.prems" show ?thesis by (simp add: encode_digits.simps)
  next
    case False
    then have pos: "0 < n" by simp
    from "1.prems" pos have "d = n mod base \<or> d \<in> set (encode_digits base (n div base))"
      by (simp add: encode_digits_step)
    then show ?thesis
    proof
      assume "d = n mod base"
      with "1.prems" show ?thesis by simp
    next
      assume "d \<in> set (encode_digits base (n div base))"
      with "1.IH" "1.prems" pos show ?thesis by simp
    qed
  qed
qed

lemma encode_digits_last:
  "2 \<le> base \<Longrightarrow> encode_digits base n \<noteq> [] \<Longrightarrow> last (encode_digits base n) \<noteq> 0"
proof (induction base n rule: encode_digits.induct)
  case (1 base n)
  have pos: "0 < n"
  proof (rule ccontr)
    assume "\<not> 0 < n"
    then have "encode_digits base n = []"
      by (simp add: encode_digits.simps)
    with "1.prems" show False by simp
  qed
  show ?case
  proof (cases "n div base = 0")
    case True
    with "1.prems" pos have "n < base"
      using pos_imp_zdiv_pos_iff [of base n] by simp
    with pos have "n mod base = n" by simp
    with "1.prems" pos True show ?thesis
      by (simp add: encode_digits_step encode_digits_zero)
  next
    case False
    have q: "0 \<le> n div base"
      using "1.prems" pos by (simp add: pos_imp_zdiv_nonneg_iff)
    with False "1.prems" have ne: "encode_digits base (n div base) \<noteq> []"
      by (simp add: encode_digits_Nil_iff)
    with "1.IH" "1.prems" pos have "last (encode_digits base (n div base)) \<noteq> 0"
      by simp
    with ne "1.prems" pos show ?thesis
      by (simp add: encode_digits_step)
  qed
qed

lemma encode_digits_quotient:
  "2 \<le> base \<Longrightarrow> 0 \<le> n \<Longrightarrow>
     k < length (encode_digits base n) \<longleftrightarrow> n div base ^ k \<noteq> 0"
proof (induction base n arbitrary: k rule: encode_digits.induct)
  case (1 base n)
  show ?case
  proof (cases "n = 0")
    case True
    then show ?thesis by (simp add: encode_digits_zero)
  next
    case False
    with "1.prems" have pos: "0 < n" by simp
    have q: "0 \<le> n div base"
      using "1.prems" by (simp add: pos_imp_zdiv_nonneg_iff)
    show ?thesis
    proof (cases k)
      case 0
      with "1.prems" pos show ?thesis by (simp add: encode_digits_step)
    next
      case (Suc j)
      have "n div base ^ Suc j = n div base div base ^ j"
        using "1.prems" by (simp add: zdiv_zmult2_eq)
      moreover have "j < length (encode_digits base (n div base)) \<longleftrightarrow> n div base div base ^ j \<noteq> 0"
        using "1.IH" "1.prems" pos q by simp
      ultimately show ?thesis
        using Suc "1.prems" pos by (simp add: encode_digits_step)
    qed
  qed
qed

lemma encode_digits_nth:
  "2 \<le> base \<Longrightarrow> i < length (encode_digits base n) \<Longrightarrow>
     encode_digits base n ! i = n div base ^ i mod base"
proof (induction base n arbitrary: i rule: encode_digits.induct)
  case (1 base n)
  from "1.prems" have pos: "0 < n"
    by (subst (asm) encode_digits.simps) (simp split: if_splits)
  show ?case
  proof (cases i)
    case 0
    with "1.prems" pos show ?thesis by (simp add: encode_digits_step)
  next
    case (Suc j)
    have "n div base ^ Suc j = n div base div base ^ j"
      using "1.prems" by (simp add: zdiv_zmult2_eq)
    moreover have "encode_digits base (n div base) ! j = n div base div base ^ j mod base"
      using "1.IH" [of j] "1.prems" pos Suc by (simp add: encode_digits_step)
    ultimately show ?thesis
      using Suc "1.prems" pos by (simp add: encode_digits_step)
  qed
qed

section \<open>Further facts used by the claims\<close>

lemma sum_list_upt: "(\<Sum>i\<leftarrow>[0..<n]. f i) = (\<Sum>i<n. (f i :: int))"
  by (simp add: interv_sum_list_conv_sum_set_nat lessThan_atLeast0)

lemma decode_sum:
  "decode digits negative base =
     (if negative then - 1 else 1) * (\<Sum>i<length digits. digits ! i * base ^ i)"
  by (simp add: decode_def reconstruct_sum)

lemma reconstruct_zeros: "reconstruct (replicate k 0) base = 0"
  by (simp add: reconstruct_sum)

lemma reconstruct_all_zero: "\<forall>d \<in> set digits. d = 0 \<Longrightarrow> reconstruct digits base = 0"
  by (induction digits) (simp_all add: reconstruct_Nil reconstruct_Cons)

lemma encode_digits_length:
  assumes b: "2 \<le> base" and lo: "base ^ k \<le> n" and hi: "n < base ^ Suc k"
  shows "length (encode_digits base n) = Suc k"
proof -
  have bpos: "0 < base ^ k"
    using b by simp
  with lo have n: "0 \<le> n"
    by linarith
  have "0 < n div base ^ k"
    using bpos lo by (simp add: pos_imp_zdiv_pos_iff)
  then have "k < length (encode_digits base n)"
    using b n by (simp add: encode_digits_quotient)
  moreover have "n div base ^ Suc k = 0"
    using n hi by (rule div_pos_pos_trivial)
  then have "\<not> Suc k < length (encode_digits base n)"
    using b n by (simp add: encode_digits_quotient)
  ultimately show ?thesis
    by linarith
qed

lemma retrieve_encode_digits:
  assumes a: "0 \<le> address" "address < 2 ^ 64"
    and len: "length (encode_digits (2 ^ 30) \<bar>v\<bar>) + 7 < 2 ^ 61"
  shows "retrieve_full_int_value_from_address
           (memory_at address (stored_int (encode_digits (2 ^ 30) \<bar>v\<bar>) (v < 0))) address = Inr v"
proof -
  have cells: "\<forall>d \<in> set (encode_digits (2 ^ 30) \<bar>v\<bar>). 0 \<le> d \<and> d < 2 ^ 32"
  proof
    fix d
    assume "d \<in> set (encode_digits (2 ^ 30) \<bar>v\<bar>)"
    then have "0 \<le> d \<and> d < 2 ^ 30"
      by (intro encode_digits_range) simp_all
    then show "0 \<le> d \<and> d < 2 ^ 32"
      by simp
  qed
  have "reconstruct (encode_digits (2 ^ 30) \<bar>v\<bar>) (2 ^ 30) = \<bar>v\<bar>"
    by (rule reconstruct_encode_digits) simp_all
  then have "decode (encode_digits (2 ^ 30) \<bar>v\<bar>) (v < 0) (2 ^ 30) = v"
    by (simp add: decode_def Let_def)
  with retrieve_stored [OF a len cells] show ?thesis
    by simp
qed

lemma notebook_encode: "encode_digits (2 ^ 30) notebook_value = notebook_digits"
  by (simp add: notebook_value_def notebook_digits_def encode_digits.simps)

section \<open>Claims\<close>

text \<open>
  C1. Round-trip law: for every integer \<open>v\<close> and every base from 2 on, encoding \<open>v\<close>
  succeeds and decoding the digits and sign it yields returns exactly \<open>v\<close>, whatever the
  magnitude of \<open>v\<close>. At the notebook's base \<open>2^30\<close> the routine itself, pointed at an
  object that holds the encoded digits and sign, returns \<open>v\<close>.
\<close>

theorem encode_decode_roundtrip:
  "(2 \<le> base \<longrightarrow>
      (\<exists>digits negative. encode v base = Inr (digits, negative)
         \<and> decode digits negative base = v))
   \<and> (encode v (2 ^ 30) = Inr (cells, sign) \<longrightarrow> length cells + 7 < 2 ^ 61 \<longrightarrow>
        0 \<le> address \<longrightarrow> address < 2 ^ 64 \<longrightarrow>
        retrieve_full_int_value_from_address (memory_at address (stored_int cells sign)) address
          = Inr v)"
proof (intro conjI impI)
  assume b: "2 \<le> base"
  have "reconstruct (encode_digits base \<bar>v\<bar>) base = \<bar>v\<bar>"
    using b by (simp add: reconstruct_encode_digits)
  then have "decode (encode_digits base \<bar>v\<bar>) (v < 0) base = v"
    by (simp add: decode_def Let_def)
  with b show "\<exists>digits negative. encode v base = Inr (digits, negative)
         \<and> decode digits negative base = v"
    by (simp add: encode_def)
next
  assume enc: "encode v (2 ^ 30) = Inr (cells, sign)" and len: "length cells + 7 < 2 ^ 61"
    and a: "0 \<le> address" "address < 2 ^ 64"
  from enc have cells: "cells = encode_digits (2 ^ 30) \<bar>v\<bar>" and sign: "sign = (v < 0)"
    by (simp_all add: encode_def)
  from a len show "retrieve_full_int_value_from_address
      (memory_at address (stored_int cells sign)) address = Inr v"
    unfolding cells sign by (rule retrieve_encode_digits)
qed

theorem encode_decode_roundtrip_witness:
  "(2::int) \<le> 10
   \<and> encode (- 123) 10 = Inr ([3, 2, 1], True) \<and> decode [3, 2, 1] True 10 = - 123
   \<and> encode (- (2 ^ 30 + 5)) (2 ^ 30) = Inr ([5, 1], True)
   \<and> length [5, 1 :: int] + 7 < 2 ^ 61
   \<and> (0::int) \<le> 4936991280 \<and> (4936991280::int) < 2 ^ 64
   \<and> retrieve_full_int_value_from_address
        (memory_at 4936991280 (stored_int [5, 1] True)) 4936991280 = Inr (- (2 ^ 30 + 5))"
proof -
  have b: "(2::int) \<le> 10"
    by simp
  have e1: "encode (- 123) 10 = Inr ([3, 2, 1], True)"
    by (simp add: encode_def encode_digits.simps)
  from encode_decode_roundtrip [of 10 "- 123"] b
  obtain digits negative where "encode (- 123) 10 = Inr (digits, negative)"
    and "decode digits negative 10 = - 123"
    by blast
  with e1 have d1: "decode [3, 2, 1] True 10 = - 123"
    by simp
  have e2: "encode (- (2 ^ 30 + 5)) (2 ^ 30) = Inr ([5, 1], True)"
    by (simp add: encode_def encode_digits.simps)
  have len: "length [5, 1 :: int] + 7 < 2 ^ 61"
    by simp
  have a: "(0::int) \<le> 4936991280" "(4936991280::int) < 2 ^ 64"
    by simp_all
  from encode_decode_roundtrip [of _ "- (2 ^ 30 + 5)" "[5, 1]" True 4936991280] e2 len a
  have r: "retrieve_full_int_value_from_address
        (memory_at 4936991280 (stored_int [5, 1] True)) 4936991280 = Inr (- (2 ^ 30 + 5))"
    by blast
  from b e1 d1 e2 len a r show ?thesis
    by blast
qed

text \<open>
  C2. For every digit sequence whose digits satisfy \<open>0 \<le> digit < base\<close> and every base from 2
  on, decoding with non-negative sign returns the sum of \<open>digits[i] * base^i\<close> over the
  indices of the sequence, in unbounded integer arithmetic; and at base \<open>2^30\<close> a single
  digit \<open>d\<close> with \<open>0 \<le> d < 2^30\<close> decodes to \<open>d\<close>, also when the routine reads it
  from an object with that one digit.
\<close>

theorem decode_nonnegative_is_positional_sum:
  "(2 \<le> base \<longrightarrow> (\<forall>d \<in> set digits. 0 \<le> d \<and> d < base) \<longrightarrow>
      decode digits False base = (\<Sum>i<length digits. digits ! i * base ^ i))
   \<and> (0 \<le> d \<longrightarrow> d < 2 ^ 30 \<longrightarrow>
        decode [d] False (2 ^ 30) = d
        \<and> (0 \<le> address \<longrightarrow> address < 2 ^ 64 \<longrightarrow>
             retrieve_full_int_value_from_address
               (memory_at address (stored_int [d] False)) address = Inr d))"
  by (simp add: decode_def reconstruct_sum retrieve_stored)

theorem decode_nonnegative_is_positional_sum_witness:
  "(2::int) \<le> 10 \<and> set [3, 2, 1 :: int] \<subseteq> {0..<10}
   \<and> decode [3, 2, 1] False 10 = 123
   \<and> (0::int) \<le> 12345 \<and> (12345::int) < 2 ^ 30 \<and> decode [12345] False (2 ^ 30) = 12345
   \<and> (0::int) \<le> 4936991280 \<and> (4936991280::int) < 2 ^ 64
   \<and> retrieve_full_int_value_from_address
        (memory_at 4936991280 (stored_int [12345] False)) 4936991280 = Inr 12345"
  using decode_nonnegative_is_positional_sum [of 10 "[3, 2, 1]" 12345 4936991280]
  by (simp add: lessThan_Suc)

text \<open>
  C3, as stated, fails on the code. The claim has decode fail with \<open>InvalidDigit\<close> on a
  digit that is not below the base. The routine has no such check: pointed at an object whose
  single digit cell holds \<open>2^30\<close>, it returns \<open>2^30\<close>.
\<close>

theorem decode_accepts_invalid_digit:
  "retrieve_full_int_value_from_address
     (memory_at 4936991280 (stored_int [2 ^ 30] False)) 4936991280 = Inr (2 ^ 30)
   \<and> decode [2 ^ 30] False (2 ^ 30) = 2 ^ 30"
  by (simp add: retrieve_stored decode_def reconstruct_def)

text \<open>
  C3, amended. Decode does not validate its digits and never fails with \<open>InvalidDigit\<close> or
  \<open>InvalidBase\<close>: whatever the digit cells hold, also values that are not below the base,
  the routine (at an address it can turn into a pointer, with a digit count the structure
  can take) returns the signed sum of \<open>cell[i] * (2^30)^i\<close> over the cells it reads. The
  base is the constant \<open>2^30\<close> and not an input, and the cells are unsigned, so a base
  below 2 and a negative digit do not arise.
\<close>

theorem routine_never_rejects_digits:
  "retrieve_full_int_value_from_address mem address \<noteq> Inl InvalidDigit
   \<and> retrieve_full_int_value_from_address mem address \<noteq> Inl InvalidBase
   \<and> (- (2 ^ 63) \<le> address \<longrightarrow> address < 2 ^ 64 \<longrightarrow>
        num_digits (mem (pointer address)) + 7 < 2 ^ 61 \<longrightarrow>
        retrieve_full_int_value_from_address mem address =
          Inr ((if sint (ob_size (mem (pointer address))) < 0 then - 1 else 1) *
               (\<Sum>i<num_digits (mem (pointer address)).
                   uint (ob_digit (mem (pointer address)) i) * (2 ^ 30) ^ i)))"
  using retrieve_no_validation_error [of mem address] retrieve_sum [of address mem]
  by blast

theorem routine_never_rejects_digits_witness:
  "- (2 ^ 63) \<le> (4936991280::int) \<and> (4936991280::int) < 2 ^ 64
   \<and> num_digits (memory_at 4936991280 (stored_int [2 ^ 30 + 1, 2 ^ 32 - 1] True)
        (pointer 4936991280)) + 7 < 2 ^ 61
   \<and> retrieve_full_int_value_from_address
        (memory_at 4936991280 (stored_int [2 ^ 30 + 1, 2 ^ 32 - 1] True)) 4936991280
       = Inr (- (2 ^ 62 + 1))"
proof -
  let ?m = "memory_at 4936991280 (stored_int [2 ^ 30 + 1, 2 ^ 32 - 1] True)"
  have p: "pointer 4936991280 = 4936991280"
    by (simp add: pointer_def)
  have a: "- (2 ^ 63) \<le> (4936991280::int)" "(4936991280::int) < 2 ^ 64"
    by simp_all
  have n2: "num_digits (?m (pointer 4936991280)) = 2"
    unfolding p memory_at_same by (simp add: stored_num_digits)
  then have n: "num_digits (?m (pointer 4936991280)) + 7 < 2 ^ 61"
    by simp
  have neg: "sint (ob_size (?m (pointer 4936991280))) < 0"
    unfolding p memory_at_same by (simp add: stored_sign)
  have c0: "uint (ob_digit (?m (pointer 4936991280)) 0) = 2 ^ 30 + 1"
    and c1: "uint (ob_digit (?m (pointer 4936991280)) 1) = 2 ^ 32 - 1"
    unfolding p memory_at_same by (simp_all add: stored_int_def)
  from routine_never_rejects_digits [of ?m 4936991280] a n
  have "retrieve_full_int_value_from_address ?m 4936991280 =
          Inr ((if sint (ob_size (?m (pointer 4936991280))) < 0 then - 1 else 1) *
               (\<Sum>i<num_digits (?m (pointer 4936991280)).
                   uint (ob_digit (?m (pointer 4936991280)) i) * (2 ^ 30) ^ i))"
    by blast
  then have "retrieve_full_int_value_from_address ?m 4936991280 = Inr (- (2 ^ 62 + 1))"
    unfolding n2 using neg c0 c1 by (simp add: lessThan_Suc numeral_2_eq_2)
  with a n show ?thesis
    by blast
qed

text \<open>
  C4. When the sign is negative and the accumulated magnitude is non-zero, the result is the
  negation of the accumulated magnitude; decoding the digits \<open>[7]\<close> at base 10 with
  negative sign yields \<open>-7\<close>; and the routine, reading a negative \<open>ob_size\<close>, returns the
  negated sum of the cells it reads.
\<close>

theorem decode_negative_negates:
  "((\<Sum>i<length digits. digits ! i * base ^ i) \<noteq> 0 \<longrightarrow>
      decode digits True base = - (\<Sum>i<length digits. digits ! i * base ^ i))
   \<and> decode [7] True 10 = - 7
   \<and> (sint (ob_size (mem (pointer address))) < 0 \<longrightarrow>
        num_digits (mem (pointer address)) + 7 < 2 ^ 61 \<longrightarrow>
        - (2 ^ 63) \<le> address \<longrightarrow> address < 2 ^ 64 \<longrightarrow>
        retrieve_full_int_value_from_address mem address =
          Inr (- (\<Sum>i<num_digits (mem (pointer address)).
                    uint (ob_digit (mem (pointer address)) i) * (2 ^ 30) ^ i)))"
  by (simp add: decode_sum retrieve_sum)

theorem decode_negative_negates_witness:
  "(\<Sum>i<length [3, 2, 1 :: int]. [3, 2, 1] ! i * 10 ^ i) \<noteq> (0::int)
   \<and> decode [3, 2, 1] True 10 = - 123
   \<and> sint (ob_size (memory_at 4936991280 (stored_int [5, 1] True) (pointer 4936991280))) < 0
   \<and> num_digits (memory_at 4936991280 (stored_int [5, 1] True) (pointer 4936991280)) + 7 < 2 ^ 61
   \<and> - (2 ^ 63) \<le> (4936991280::int) \<and> (4936991280::int) < 2 ^ 64
   \<and> retrieve_full_int_value_from_address
        (memory_at 4936991280 (stored_int [5, 1] True)) 4936991280 = Inr (- (2 ^ 30 + 5))"
proof -
  let ?m = "memory_at 4936991280 (stored_int [5, 1] True)"
  have p: "pointer 4936991280 = 4936991280"
    by (simp add: pointer_def)
  have s: "(\<Sum>i<length [3, 2, 1 :: int]. [3, 2, 1] ! i * 10 ^ i) \<noteq> (0::int)"
    by (simp add: lessThan_Suc)
  from decode_negative_negates [of "[3, 2, 1]" 10] s
  have "decode [3, 2, 1] True 10 = - (\<Sum>i<length [3, 2, 1 :: int]. [3, 2, 1] ! i * 10 ^ i)"
    by blast
  then have d: "decode [3, 2, 1] True 10 = - 123"
    by (simp add: lessThan_Suc)
  have a: "- (2 ^ 63) \<le> (4936991280::int)" "(4936991280::int) < 2 ^ 64"
    by simp_all
  have n2: "num_digits (?m (pointer 4936991280)) = 2"
    unfolding p memory_at_same by (simp add: stored_num_digits)
  then have n: "num_digits (?m (pointer 4936991280)) + 7 < 2 ^ 61"
    by simp
  have neg: "sint (ob_size (?m (pointer 4936991280))) < 0"
    unfolding p memory_at_same by (simp add: stored_sign)
  have c0: "uint (ob_digit (?m (pointer 4936991280)) 0) = 5"
    and c1: "uint (ob_digit (?m (pointer 4936991280)) 1) = 1"
    unfolding p memory_at_same by (simp_all add: stored_int_def)
  from decode_negative_negates [of _ _ ?m 4936991280] neg n a
  have "retrieve_full_int_value_from_address ?m 4936991280 =
          Inr (- (\<Sum>i<num_digits (?m (pointer 4936991280)).
                    uint (ob_digit (?m (pointer 4936991280)) i) * (2 ^ 30) ^ i))"
    by blast
  then have r: "retrieve_full_int_value_from_address ?m 4936991280 = Inr (- (2 ^ 30 + 5))"
    unfolding n2 using c0 c1 by (simp add: lessThan_Suc numeral_2_eq_2)
  from s d neg n a r show ?thesis
    by blast
qed

text \<open>
  C5. For every integer \<open>v\<close> and every base from 2 on, encode succeeds; its digit at index
  \<open>i\<close> is the remainder of dividing the quotient \<open>|v| div base^i\<close> left after \<open>i\<close>
  divisions, which is still non-zero; the quotient after the last digit is zero; and the sign
  is negative exactly when \<open>v < 0\<close>.
\<close>

theorem encode_collects_remainders:
  "2 \<le> base \<Longrightarrow>
     \<exists>digits. encode v base = Inr (digits, v < 0)
       \<and> (\<forall>i<length digits. digits ! i = \<bar>v\<bar> div base ^ i mod base \<and> \<bar>v\<bar> div base ^ i \<noteq> 0)
       \<and> \<bar>v\<bar> div base ^ length digits = 0"
proof -
  assume b: "2 \<le> base"
  let ?ds = "encode_digits base \<bar>v\<bar>"
  have q: "\<And>k. k < length ?ds \<longleftrightarrow> \<bar>v\<bar> div base ^ k \<noteq> 0"
    using b by (simp add: encode_digits_quotient)
  have "encode v base = Inr (?ds, v < 0)"
    using b by (simp add: encode_def)
  moreover have "\<forall>i<length ?ds. ?ds ! i = \<bar>v\<bar> div base ^ i mod base \<and> \<bar>v\<bar> div base ^ i \<noteq> 0"
    using b q by (simp add: encode_digits_nth)
  moreover have "\<bar>v\<bar> div base ^ length ?ds = 0"
    using q [of "length ?ds"] by simp
  ultimately show ?thesis by blast
qed

theorem encode_collects_remainders_witness:
  "(2::int) \<le> 10 \<and> encode (- 123) 10 = Inr ([3, 2, 1], - 123 < (0::int))
   \<and> (\<exists>digits. encode (- 123) 10 = Inr (digits, - 123 < (0::int))
       \<and> (\<forall>i<length digits. digits ! i = \<bar>- 123\<bar> div 10 ^ i mod 10 \<and> \<bar>- 123 :: int\<bar> div 10 ^ i \<noteq> 0)
       \<and> \<bar>- 123 :: int\<bar> div 10 ^ length digits = 0)"
  using encode_collects_remainders [of 10 "- 123"]
  by (simp add: encode_def encode_digits.simps)

text \<open>
  C6. For every integer \<open>v\<close> and every base from 2 on, the digit sequence of encode is
  normalized: when it is not empty its last (most-significant) digit is non-zero, it is empty
  exactly for the value 0, and encode of 0 is the empty sequence with non-negative sign.
\<close>

theorem encode_normalized:
  "2 \<le> base \<Longrightarrow>
     \<exists>digits. encode v base = Inr (digits, v < 0)
       \<and> (digits \<noteq> [] \<longrightarrow> last digits \<noteq> 0)
       \<and> (digits = [] \<longleftrightarrow> v = 0)
       \<and> encode 0 base = Inr ([], False)"
  by (simp add: encode_def encode_digits_last encode_digits_Nil_iff encode_digits_zero)

theorem encode_normalized_witness:
  "(2::int) \<le> 10 \<and> encode 1200 10 = Inr ([0, 0, 2, 1], False) \<and> last [0, 0, 2, 1 :: int] \<noteq> 0
   \<and> encode 0 10 = Inr ([], False)
   \<and> (\<exists>digits. encode 1200 10 = Inr (digits, 1200 < (0::int))
       \<and> (digits \<noteq> [] \<longrightarrow> last digits \<noteq> 0)
       \<and> (digits = [] \<longleftrightarrow> (1200::int) = 0)
       \<and> encode 0 10 = Inr ([], False))"
  using encode_normalized [of 10 1200]
  by (simp add: encode_def encode_digits.simps)

text \<open>
  C7. Decoding does not truncate to a machine word. Every integer of 300 decimal digits
  encodes at base \<open>2^30\<close> to 34 digits, and the routine, pointed at an object holding these
  digits and the sign, returns the integer exactly. The integer of the notebook's last cell
  (above \<open>2^64\<close>) encodes to the 35 digits listed in \<open>notebook_digits\<close> and the routine
  returns it exactly. After any number \<open>k\<close> of iterations the accumulator of the loop is the
  exact partial sum.
\<close>

theorem large_value_roundtrip:
  "(10 ^ 299 \<le> \<bar>v\<bar> \<longrightarrow> \<bar>v\<bar> < 10 ^ 300 \<longrightarrow>
      (\<exists>digits. encode v (2 ^ 30) = Inr (digits, v < 0) \<and> length digits = 34
         \<and> decode digits (v < 0) (2 ^ 30) = v
         \<and> (0 \<le> address \<longrightarrow> address < 2 ^ 64 \<longrightarrow>
              retrieve_full_int_value_from_address
                (memory_at address (stored_int digits (v < 0))) address = Inr v)))
   \<and> encode notebook_value (2 ^ 30) = Inr (notebook_digits, False)
   \<and> length notebook_digits = 35
   \<and> 2 ^ 64 \<le> notebook_value
   \<and> decode notebook_digits False (2 ^ 30) = notebook_value
   \<and> (0 \<le> address \<longrightarrow> address < 2 ^ 64 \<longrightarrow>
        retrieve_full_int_value_from_address
          (memory_at address (stored_int notebook_digits False)) address = Inr notebook_value)
   \<and> fold (\<lambda>i value. value + digits ! i * (2 ^ 30) ^ i) [0..<k] (0::int)
        = (\<Sum>i<k. digits ! i * (2 ^ 30) ^ i)"
proof -
  have general: "\<exists>digits. encode v (2 ^ 30) = Inr (digits, v < 0) \<and> length digits = 34
         \<and> decode digits (v < 0) (2 ^ 30) = v
         \<and> (0 \<le> address \<longrightarrow> address < 2 ^ 64 \<longrightarrow>
              retrieve_full_int_value_from_address
                (memory_at address (stored_int digits (v < 0))) address = Inr v)"
    if lo: "10 ^ 299 \<le> \<bar>v\<bar>" and hi: "\<bar>v\<bar> < 10 ^ 300"
  proof -
    let ?ds = "encode_digits (2 ^ 30) \<bar>v\<bar>"
    have "(2 ^ 30) ^ 33 \<le> \<bar>v\<bar>"
      using lo by simp
    moreover have "\<bar>v\<bar> < (2 ^ 30) ^ Suc 33"
      using hi by simp
    ultimately have len: "length ?ds = Suc 33"
      by (intro encode_digits_length) simp_all
    then have small: "length ?ds + 7 < 2 ^ 61"
      by simp
    have "reconstruct ?ds (2 ^ 30) = \<bar>v\<bar>"
      by (rule reconstruct_encode_digits) simp_all
    then have "decode ?ds (v < 0) (2 ^ 30) = v"
      by (simp add: decode_def Let_def)
    moreover have "encode v (2 ^ 30) = Inr (?ds, v < 0)"
      by (simp add: encode_def)
    moreover have "length ?ds = 34"
      using len by simp
    moreover have "0 \<le> address \<longrightarrow> address < 2 ^ 64 \<longrightarrow>
        retrieve_full_int_value_from_address
          (memory_at address (stored_int ?ds (v < 0))) address = Inr v"
      using retrieve_encode_digits [OF _ _ small] by blast
    ultimately show ?thesis
      by blast
  qed
  have abs: "\<bar>notebook_value\<bar> = notebook_value"
    by (simp add: notebook_value_def)
  have neg: "(notebook_value < 0) = False"
    by (simp add: notebook_value_def)
  have nb: "encode_digits (2 ^ 30) \<bar>notebook_value\<bar> = notebook_digits"
    unfolding abs by (rule notebook_encode)
  have len: "length notebook_digits = 35"
    by (simp add: notebook_digits_def)
  have "length (encode_digits (2 ^ 30) \<bar>notebook_value\<bar>) + 7 < 2 ^ 61"
    unfolding nb len by simp
  then have "0 \<le> address \<longrightarrow> address < 2 ^ 64 \<longrightarrow>
        retrieve_full_int_value_from_address
          (memory_at address (stored_int (encode_digits (2 ^ 30) \<bar>notebook_value\<bar>)
             (notebook_value < 0))) address = Inr notebook_value"
    using retrieve_encode_digits [of address notebook_value] by blast
  then have routine: "0 \<le> address \<longrightarrow> address < 2 ^ 64 \<longrightarrow>
        retrieve_full_int_value_from_address
          (memory_at address (stored_int notebook_digits False)) address = Inr notebook_value"
    unfolding nb neg .
  have "reconstruct (encode_digits (2 ^ 30) \<bar>notebook_value\<bar>) (2 ^ 30) = \<bar>notebook_value\<bar>"
    by (rule reconstruct_encode_digits) simp_all
  then have "reconstruct notebook_digits (2 ^ 30) = notebook_value"
    unfolding abs notebook_encode .
  then have dec: "decode notebook_digits False (2 ^ 30) = notebook_value"
    by (simp add: decode_def)
  have "encode notebook_value (2 ^ 30) =
          Inr (encode_digits (2 ^ 30) \<bar>notebook_value\<bar>, notebook_value < 0)"
    by (simp add: encode_def)
  then have enc: "encode notebook_value (2 ^ 30) = Inr (notebook_digits, False)"
    unfolding nb neg .
  have big: "2 ^ 64 \<le> notebook_value"
    by (simp add: notebook_value_def)
  show ?thesis
    using general enc len big dec routine by (simp add: fold_accumulate)
qed

theorem large_value_roundtrip_witness:
  "(10::int) ^ 299 \<le> \<bar>10 ^ 299 + 7\<bar> \<and> \<bar>10 ^ 299 + 7 :: int\<bar> < 10 ^ 300
   \<and> (0::int) \<le> 4937898736 \<and> (4937898736::int) < 2 ^ 64
   \<and> (\<exists>digits. encode (10 ^ 299 + 7) (2 ^ 30) = Inr (digits, False) \<and> length digits = 34
         \<and> decode digits False (2 ^ 30) = 10 ^ 299 + 7
         \<and> retrieve_full_int_value_from_address
              (memory_at 4937898736 (stored_int digits False)) 4937898736 = Inr (10 ^ 299 + 7))
   \<and> retrieve_full_int_value_from_address
        (memory_at 4937898736 (stored_int notebook_digits False)) 4937898736 = Inr notebook_value"
  using large_value_roundtrip [of "10 ^ 299 + 7" 4937898736]
  by simp



text \<open>
  C9. For every digit sequence and base, decoding with negative sign is the negation of
  decoding with non-negative sign; the code's unconditional negation agrees with the
  specification's negation guarded by a non-zero magnitude; and a sequence whose digits are
  all zero (the empty one included) decodes to 0 under either sign.
\<close>

theorem negation_is_unconditional:
  "decode digits True base = - decode digits False base
   \<and> decode digits negative base = decode_guarded digits negative base
   \<and> ((\<forall>d \<in> set digits. d = 0) \<longrightarrow> decode digits negative base = 0)"
  by (simp add: decode_def decode_guarded_def Let_def sum_list_upt reconstruct_sum [symmetric]
      reconstruct_all_zero)

theorem negation_is_unconditional_witness:
  "set [0, 0, 0 :: int] \<subseteq> {0} \<and> decode [0, 0, 0] True 10 = 0
   \<and> decode [0, 0, 0] False 10 = 0 \<and> decode_guarded [0, 0, 0] True 10 = 0
   \<and> decode [] True 10 = 0"
  using negation_is_unconditional [of "[0, 0, 0]" 10 True]
    negation_is_unconditional [of "[0, 0, 0]" 10 False]
  by (simp add: decode_Nil)

text \<open>
  C10. Decode does not need normalized input: appending any number of zero digits at the
  most-significant end leaves the decoded value unchanged, for every digit sequence, sign and
  base.
\<close>

theorem decode_ignores_padding:
  "decode (digits @ replicate k 0) negative base = decode digits negative base"
  by (simp add: decode_def reconstruct_append reconstruct_zeros)

end
